theory Spec2Isabelle
  imports Complex_Main "HOL-Library.Word"
begin

section \<open>Configuration\<close>

text \<open>
  \<^verbatim>\<open>cache_asociativo.cpp\<close> fixes the cache geometry with global constants and takes the
  associativity as the template argument of \<^verbatim>\<open>Cache<NUM_WAYS>\<close>. The model takes all of
  them in one record, so that the source's values and the small geometries of the
  end-to-end scenarios are instances of the same definitions.

  Every \<^verbatim>\<open>size_t\<close> is a \<open>nat\<close>. A block index is \<^verbatim>\<open>address / MyBLOCK_SIZE\<close>, below
  \<open>2 ^ 59\<close> with the block size of the source, so that the bounds of the prefetch loop do
  not wrap (lemma \<open>source_config_no_wrap\<close>); a set index is a remainder; \<open>hits + misses\<close> is the number of calls of
  \<^verbatim>\<open>access\<close> and \<open>prefetch_hits\<close> is at most
  \<open>PREFETCH_DISTANCE\<close> times as many, so that no counter of a run that a machine can
  perform reaches \<open>2 ^ 64\<close>. The one subtraction that can wrap (in the constructor of the
  access pattern) is written out.
\<close>

record config =
  CACHE_SIZE :: nat
  MyBLOCK_SIZE :: nat
  PREFETCH_DISTANCE :: nat
  HOT_ACCESS_PROB :: real
  NUM_WAYS :: nat

definition source_config :: "nat \<Rightarrow> config" where
  "source_config num_ways =
     \<lparr>CACHE_SIZE = 2048, MyBLOCK_SIZE = 32, PREFETCH_DISTANCE = 8, HOT_ACCESS_PROB = 1 / 2,
      NUM_WAYS = num_ways\<rparr>"

text \<open>
  What the source leaves undefined or raises is a value of the model: the exception of
  \<^verbatim>\<open>read_block\<close>, a division or remainder by zero, and \<^verbatim>\<open>pop_back\<close> on an empty list.
\<close>

datatype fault = OutOfRange | DivisionByZero | PopBackEmpty

section \<open>Block and external memory\<close>

type_synonym Block = "32 word list"

definition Block_new :: "config \<Rightarrow> 32 word \<Rightarrow> Block" where
  "Block_new cfg initial_value =
     map (\<lambda>i. initial_value + of_nat i) [0 ..< MyBLOCK_SIZE cfg]"

text \<open>The field \<^verbatim>\<open>blocks\<close> of \<^verbatim>\<open>ExternalMemory\<close> is \<open>mem_blocks\<close> here, since
  \<^verbatim>\<open>CacheSet\<close> has a field of the same name.\<close>

record ExternalMemory =
  mem_blocks :: "Block list"

definition ExternalMemory_new :: "config \<Rightarrow> nat \<Rightarrow> ExternalMemory" where
  "ExternalMemory_new cfg num_blocks =
     \<lparr>mem_blocks = map (\<lambda>i. Block_new cfg (of_nat (i * MyBLOCK_SIZE cfg))) [0 ..< num_blocks]\<rparr>"

definition ExternalMemory_size :: "ExternalMemory \<Rightarrow> nat" where
  "ExternalMemory_size m = length (mem_blocks m)"

definition read_block :: "ExternalMemory \<Rightarrow> nat \<Rightarrow> fault + Block" where
  "read_block m block_address =
     (if block_address \<ge> length (mem_blocks m) then Inl OutOfRange
      else Inr (mem_blocks m ! block_address))"

section \<open>Cache set\<close>

record CacheSet =
  blocks :: "nat list"
  ways :: nat

definition CacheSet_new :: "nat \<Rightarrow> CacheSet" where
  "CacheSet_new num_ways = \<lparr>blocks = [], ways = num_ways\<rparr>"

text \<open>
  \<^verbatim>\<open>CacheSet::access\<close>: \<^verbatim>\<open>std::find\<close> gives the first occurrence, which \<^verbatim>\<open>erase\<close> removes
  (\<open>remove1\<close>); \<^verbatim>\<open>pop_back\<close> is \<open>butlast\<close>, and undefined on an empty list.
\<close>

definition CacheSet_access :: "CacheSet \<Rightarrow> nat \<Rightarrow> fault + (bool \<times> CacheSet)" where
  "CacheSet_access s block_address =
     (if block_address \<in> set (blocks s)
      then Inr (True, s\<lparr>blocks := block_address # remove1 block_address (blocks s)\<rparr>)
      else if length (blocks s) \<ge> ways s
      then (if blocks s = [] then Inl PopBackEmpty
            else Inr (False, s\<lparr>blocks := block_address # butlast (blocks s)\<rparr>))
      else Inr (False, s\<lparr>blocks := block_address # blocks s\<rparr>))"

definition CacheSet_contains :: "CacheSet \<Rightarrow> nat \<Rightarrow> bool" where
  "CacheSet_contains s block_address \<longleftrightarrow> block_address \<in> set (blocks s)"

section \<open>Cache\<close>

text \<open>
  The events a member function performs, in program order: the entry of \<^verbatim>\<open>access\<close>, the
  return of \<^verbatim>\<open>sets[set_index].access\<close> with its outcome, each counter increment, and each
  \<^verbatim>\<open>read_block\<close> of the prefetch.
\<close>

datatype event =
    Dispatch nat
  | Outcome bool
  | HitsInc
  | MissesInc
  | PrefetchHitsInc nat
  | ReadBlock nat

text \<open>
  The fields of \<^verbatim>\<open>Cache\<close>, and \<open>events\<close>, which is not a field of the class: it is the
  history of the events above, kept so that their order and the reads of the backing
  store can be stated. No function of the model reads it.
\<close>

record Cache =
  memory :: ExternalMemory
  sets :: "CacheSet list"
  hits :: nat
  misses :: nat
  prefetch_hits :: nat
  events :: "event list"

definition Cache_new :: "config \<Rightarrow> ExternalMemory \<Rightarrow> fault + Cache" where
  "Cache_new cfg mem =
     (if MyBLOCK_SIZE cfg * NUM_WAYS cfg = 0 then Inl DivisionByZero
      else
        let num_sets = CACHE_SIZE cfg div (MyBLOCK_SIZE cfg * NUM_WAYS cfg);
            num_sets = (if num_sets = 0 then 1 else num_sets)
        in Inr \<lparr>memory = mem,
                sets = replicate num_sets (CacheSet_new (NUM_WAYS cfg)),
                hits = 0, misses = 0, prefetch_hits = 0, events = []\<rparr>)"

definition is_block_in_cache :: "Cache \<Rightarrow> nat \<Rightarrow> fault + bool" where
  "is_block_in_cache c block_address =
     (if sets c = [] then Inl DivisionByZero
      else
        let set_index = block_address mod length (sets c)
        in Inr (CacheSet_contains (sets c ! set_index) block_address))"

text \<open>The body of the loop of \<^verbatim>\<open>prefetch_adjacent_blocks\<close>, at the index \<open>i\<close>.\<close>

definition prefetch_visit :: "Cache \<Rightarrow> nat \<Rightarrow> fault + Cache" where
  "prefetch_visit c i =
     (if i < ExternalMemory_size (memory c) then
        (case is_block_in_cache c i of
           Inl e \<Rightarrow> Inl e
         | Inr True \<Rightarrow>
             Inr (c\<lparr>prefetch_hits := prefetch_hits c + 1,
                    events := events c @ [PrefetchHitsInc i]\<rparr>)
         | Inr False \<Rightarrow>
             (case read_block (memory c) i of
                Inl e \<Rightarrow> Inl e
              | Inr dummy \<Rightarrow> Inr (c\<lparr>events := events c @ [ReadBlock i]\<rparr>)))
      else Inr c)"

text \<open>The loop \<^verbatim>\<open>for (i = ...; i <= hi; ++i)\<close>, from the index \<open>i\<close> on.\<close>

function prefetch_loop :: "Cache \<Rightarrow> nat \<Rightarrow> nat \<Rightarrow> fault + Cache" where
  "prefetch_loop c i hi =
     (if i \<le> hi then
        (case prefetch_visit c i of
           Inl e \<Rightarrow> Inl e
         | Inr c' \<Rightarrow> prefetch_loop c' (i + 1) hi)
      else Inr c)"
  by pat_completeness auto
termination
  by (relation "measure (\<lambda>(c, i, hi). Suc hi - i)") auto

declare prefetch_loop.simps [simp del]

definition prefetch_adjacent_blocks :: "config \<Rightarrow> Cache \<Rightarrow> nat \<Rightarrow> fault + Cache" where
  "prefetch_adjacent_blocks cfg c block_address =
     prefetch_loop c (block_address + 1) (block_address + PREFETCH_DISTANCE cfg)"

text \<open>
  \<^verbatim>\<open>Cache::access\<close>. On a miss the prefetch runs on the cache whose set already holds the
  missed block, and \<^verbatim>\<open>misses++\<close> comes after it, as in the source.
\<close>

definition Cache_access :: "config \<Rightarrow> Cache \<Rightarrow> nat \<Rightarrow> fault + (bool \<times> Cache)" where
  "Cache_access cfg c address =
     (if MyBLOCK_SIZE cfg = 0 \<or> sets c = [] then Inl DivisionByZero
      else
        let block_address = address div MyBLOCK_SIZE cfg;
            set_index = block_address mod length (sets c);
            c0 = c\<lparr>events := events c @ [Dispatch address]\<rparr>
        in case CacheSet_access (sets c0 ! set_index) block_address of
             Inl e \<Rightarrow> Inl e
           | Inr (True, s) \<Rightarrow>
               Inr (True, c0\<lparr>sets := (sets c0)[set_index := s],
                             hits := hits c0 + 1,
                             events := events c0 @ [Outcome True, HitsInc]\<rparr>)
           | Inr (False, s) \<Rightarrow>
               (case prefetch_adjacent_blocks cfg
                       (c0\<lparr>sets := (sets c0)[set_index := s],
                           events := events c0 @ [Outcome False]\<rparr>) block_address of
                  Inl e \<Rightarrow> Inl e
                | Inr c1 \<Rightarrow>
                    Inr (False, c1\<lparr>misses := misses c1 + 1,
                                   events := events c1 @ [MissesInc]\<rparr>)))"

text \<open>
  The loop of \<^verbatim>\<open>run_simulation\<close>, \<^verbatim>\<open>cache.access(pattern.next_address())\<close>, on the addresses
  the pattern produced; the outcomes of the calls are kept in order.
\<close>

fun run :: "config \<Rightarrow> Cache \<Rightarrow> nat list \<Rightarrow> fault + (bool list \<times> Cache)" where
  "run cfg c [] = Inr ([], c)"
| "run cfg c (address # rest) =
     (case Cache_access cfg c address of
        Inl e \<Rightarrow> Inl e
      | Inr (r, c') \<Rightarrow>
          (case run cfg c' rest of
             Inl e \<Rightarrow> Inl e
           | Inr (rs, c'') \<Rightarrow> Inr (r # rs, c'')))"

text \<open>
  The cache side of \<^verbatim>\<open>run_simulation\<close>: the cache is constructed on the memory, then the
  addresses are accessed in order.
\<close>

definition simulate :: "config \<Rightarrow> ExternalMemory \<Rightarrow> nat list \<Rightarrow> fault + (bool list \<times> Cache)" where
  "simulate cfg mem addrs =
     (case Cache_new cfg mem of
        Inl e \<Rightarrow> Inl e
      | Inr c \<Rightarrow> run cfg c addrs)"

subsection \<open>Metrics\<close>

text \<open>
  The two rates are \<^verbatim>\<open>double\<close> quotients. \<open>Val q\<close> stands for the \<^verbatim>\<open>double\<close> that the
  division gives for the exact quotient \<open>q\<close> (its rounding is not modelled); a zero divisor
  gives no number: \<^verbatim>\<open>0.0 / 0\<close> is NaN and \<^verbatim>\<open>x / 0\<close> with \<^verbatim>\<open>x > 0\<close> is infinite.
\<close>

datatype double = Val real | PosInf | NaN

definition double_div :: "nat \<Rightarrow> nat \<Rightarrow> double" where
  "double_div n d =
     (if d = 0 then (if n = 0 then NaN else PosInf) else Val (real n / real d))"

definition getHits :: "Cache \<Rightarrow> nat" where
  "getHits c = hits c"

definition getMisses :: "Cache \<Rightarrow> nat" where
  "getMisses c = misses c"

definition getPrefetchHits :: "Cache \<Rightarrow> nat" where
  "getPrefetchHits c = prefetch_hits c"

definition getHitRate :: "Cache \<Rightarrow> double" where
  "getHitRate c = double_div (hits c) (hits c + misses c)"

definition getEffectiveHitRate :: "Cache \<Rightarrow> double" where
  "getEffectiveHitRate c =
     double_div (hits c + prefetch_hits c) (hits c + misses c + prefetch_hits c)"

text \<open>The rate as the specification words it: the quotient, and 0 for a zero divisor.\<close>

definition spec_rate :: "nat \<Rightarrow> nat \<Rightarrow> double" where
  "spec_rate n d = (if d = 0 then Val 0 else Val (real n / real d))"

section \<open>Access pattern\<close>

text \<open>
  The generator and the distributions of \<^verbatim>\<open><random>\<close> are not code of the repository: a
  draw is a function from the state of the generator to a value and the next state, and
  both kinds of draw are parameters of the model.
\<close>

record 'g random_source =
  uniform_real :: "'g \<Rightarrow> real \<times> 'g"
  uniform_int :: "nat \<times> nat \<Rightarrow> 'g \<Rightarrow> nat \<times> 'g"

record 'g RealisticAccessPattern =
  gen :: 'g
  hot_block_dist :: "nat \<times> nat"
  cold_block_dist :: "nat \<times> nat"
  element_dist :: "nat \<times> nat"
  count :: nat
  num_elements :: nat

text \<open>\<^verbatim>\<open>n - 1\<close> on \<^verbatim>\<open>size_t\<close>, which wraps at \<open>n = 0\<close>.\<close>

definition size_t_pred :: "nat \<Rightarrow> nat" where
  "size_t_pred n = (n + 2 ^ 64 - 1) mod 2 ^ 64"

definition RealisticAccessPattern_new ::
    "config \<Rightarrow> 'g \<Rightarrow> nat \<Rightarrow> nat \<Rightarrow> 'g RealisticAccessPattern" where
  "RealisticAccessPattern_new cfg seed max_blocks n =
     \<lparr>gen = seed,
      hot_block_dist = (0, size_t_pred (max_blocks div 4)),
      cold_block_dist = (0, size_t_pred max_blocks),
      element_dist = (0, size_t_pred (MyBLOCK_SIZE cfg)),
      count = 0,
      num_elements = n\<rparr>"

definition next_address ::
    "'g random_source \<Rightarrow> config \<Rightarrow> 'g RealisticAccessPattern \<Rightarrow> nat \<times> 'g RealisticAccessPattern" where
  "next_address rnd cfg p =
     (if count p \<ge> num_elements p then (0, p)
      else
        let (u, g1) = uniform_real rnd (gen p);
            access_hot = (u < HOT_ACCESS_PROB cfg);
            (block, g2) = (if access_hot then uniform_int rnd (hot_block_dist p) g1
                           else uniform_int rnd (cold_block_dist p) g1);
            (element, g3) = uniform_int rnd (element_dist p) g2;
            address = block * MyBLOCK_SIZE cfg + element
        in (address, p\<lparr>gen := g3, count := count p + 1\<rparr>))"

text \<open>\<open>n\<close> calls in a row, as the loop of \<^verbatim>\<open>run_simulation\<close> makes them.\<close>

fun next_addresses ::
    "'g random_source \<Rightarrow> config \<Rightarrow> 'g RealisticAccessPattern \<Rightarrow> nat \<Rightarrow>
     nat list \<times> 'g RealisticAccessPattern" where
  "next_addresses rnd cfg p 0 = ([], p)"
| "next_addresses rnd cfg p (Suc n) =
     (let (a, p') = next_address rnd cfg p;
          (as, p'') = next_addresses rnd cfg p' n
      in (a # as, p''))"

section \<open>Notions used in the statements\<close>

text \<open>The indices the loop of \<^verbatim>\<open>prefetch_adjacent_blocks\<close> visits and finds in range.\<close>

definition successors :: "config \<Rightarrow> Cache \<Rightarrow> nat \<Rightarrow> nat list" where
  "successors cfg c b =
     filter (\<lambda>i. i < ExternalMemory_size (memory c)) [b + 1 ..< b + PREFETCH_DISTANCE cfg + 1]"

definition resident :: "Cache \<Rightarrow> nat \<Rightarrow> bool" where
  "resident c b \<longleftrightarrow> CacheSet_contains (sets c ! (b mod length (sets c))) b"

definition prefetch_event :: "Cache \<Rightarrow> nat \<Rightarrow> event" where
  "prefetch_event c i = (if resident c i then PrefetchHitsInc i else ReadBlock i)"

text \<open>
  What the constructor establishes and every access keeps: there is a set, no set has
  zero ways, and the block size is not zero. Without it \<^verbatim>\<open>access\<close> is undefined.
\<close>

definition wf_cache :: "config \<Rightarrow> Cache \<Rightarrow> bool" where
  "wf_cache cfg c \<longleftrightarrow>
     0 < MyBLOCK_SIZE cfg \<and> sets c \<noteq> [] \<and> list_all (\<lambda>s. 0 < ways s) (sets c)"

text \<open>The number of sets as the specification words it.\<close>

definition NUM_SETS :: "config \<Rightarrow> nat" where
  "NUM_SETS cfg = max 1 (CACHE_SIZE cfg div (MyBLOCK_SIZE cfg * NUM_WAYS cfg))"

definition set_inv :: "config \<Rightarrow> nat \<Rightarrow> nat \<Rightarrow> CacheSet \<Rightarrow> bool" where
  "set_inv cfg n i s \<longleftrightarrow>
     ways s = NUM_WAYS cfg \<and> length (blocks s) \<le> NUM_WAYS cfg \<and> distinct (blocks s) \<and>
     (\<forall>b \<in> set (blocks s). b mod n = i)"

definition cache_inv :: "config \<Rightarrow> Cache \<Rightarrow> bool" where
  "cache_inv cfg c \<longleftrightarrow>
     0 < MyBLOCK_SIZE cfg \<and> 0 < NUM_WAYS cfg \<and> length (sets c) = NUM_SETS cfg \<and>
     (\<forall>i < length (sets c). set_inv cfg (length (sets c)) i (sets c ! i)) \<and>
     prefetch_hits c \<le> misses c * PREFETCH_DISTANCE cfg"

text \<open>The events that a call appended to the history.\<close>

definition call_events :: "Cache \<Rightarrow> Cache \<Rightarrow> event list" where
  "call_events c c' = drop (length (events c)) (events c')"

fun is_dispatch :: "event \<Rightarrow> bool" where
  "is_dispatch (Dispatch a) = True"
| "is_dispatch e = False"

fun is_outcome :: "event \<Rightarrow> bool" where
  "is_outcome (Outcome r) = True"
| "is_outcome e = False"

fun is_counter_update :: "event \<Rightarrow> bool" where
  "is_counter_update HitsInc = True"
| "is_counter_update MissesInc = True"
| "is_counter_update e = False"

fun is_miss_count :: "event \<Rightarrow> bool" where
  "is_miss_count MissesInc = True"
| "is_miss_count e = False"

fun is_prefetch_update :: "event \<Rightarrow> bool" where
  "is_prefetch_update (PrefetchHitsInc i) = True"
| "is_prefetch_update e = False"

text \<open>
  \<open>followed_by P Q evs\<close>: every event with \<open>P\<close> has an event with \<open>Q\<close> strictly after it;
  \<open>preceded_by P Q evs\<close>: every event with \<open>P\<close> has an event with \<open>Q\<close> strictly before it.
\<close>

fun followed_by :: "(event \<Rightarrow> bool) \<Rightarrow> (event \<Rightarrow> bool) \<Rightarrow> event list \<Rightarrow> bool" where
  "followed_by P Q [] = True"
| "followed_by P Q (e # es) = ((P e \<longrightarrow> list_ex Q es) \<and> followed_by P Q es)"

definition preceded_by :: "(event \<Rightarrow> bool) \<Rightarrow> (event \<Rightarrow> bool) \<Rightarrow> event list \<Rightarrow> bool" where
  "preceded_by P Q evs = followed_by P Q (rev evs)"

text \<open>
  The geometry of the end-to-end scenarios of the specification (16 elements in blocks
  of 4) and their backing store of 8 blocks.
\<close>

definition scenario_config :: "nat \<Rightarrow> nat \<Rightarrow> config" where
  "scenario_config num_ways prefetch_distance =
     \<lparr>CACHE_SIZE = 16, MyBLOCK_SIZE = 4, PREFETCH_DISTANCE = prefetch_distance,
      HOT_ACCESS_PROB = 1 / 2, NUM_WAYS = num_ways\<rparr>"

definition scenario_memory :: ExternalMemory where
  "scenario_memory = ExternalMemory_new (scenario_config 2 0) 8"

text \<open>
  States of the scenario with 2 ways and a prefetch distance of 2: the fresh cache, and the
  cache after the single access to address 4 (block 1, in set 1).
\<close>

definition scenario_fresh :: Cache where
  "scenario_fresh =
     \<lparr>memory = scenario_memory,
      sets = [\<lparr>blocks = [], ways = 2\<rparr>, \<lparr>blocks = [], ways = 2\<rparr>],
      hits = 0, misses = 0, prefetch_hits = 0, events = []\<rparr>"

definition scenario_cache :: Cache where
  "scenario_cache =
     \<lparr>memory = scenario_memory,
      sets = [\<lparr>blocks = [], ways = 2\<rparr>, \<lparr>blocks = [1], ways = 2\<rparr>],
      hits = 0, misses = 1, prefetch_hits = 0,
      events = [Dispatch 4, Outcome False, ReadBlock 2, ReadBlock 3, MissesInc]\<rparr>"

text \<open>The events of one call of \<^verbatim>\<open>access\<close>; none if the call does not return.\<close>

definition access_events :: "config \<Rightarrow> Cache \<Rightarrow> nat \<Rightarrow> event list" where
  "access_events cfg c address =
     (case Cache_access cfg c address of
        Inl e \<Rightarrow> []
      | Inr (r, c') \<Rightarrow> call_events c c')"

text \<open>A source of draws that always gives the lower end for a real and the upper end for an
  integer.\<close>

definition constant_source :: "unit random_source" where
  "constant_source = \<lparr>uniform_real = (\<lambda>g. (0, g)), uniform_int = (\<lambda>(lo, hi) g. (hi, g))\<rparr>"

section \<open>Properties of the model\<close>

subsection \<open>The constants of the source\<close>

text \<open>The three caches of \<^verbatim>\<open>main\<close> have 32, 16 and 8 sets, and with their block size no
  bound of the prefetch loop reaches \<open>2 ^ 64\<close>.\<close>

lemma source_config_sets:
  "NUM_SETS (source_config 2) = 32" "NUM_SETS (source_config 4) = 16"
  "NUM_SETS (source_config 8) = 8"
  by (simp_all add: NUM_SETS_def source_config_def)

lemma source_config_no_wrap:
  assumes "address < 2 ^ 64"
  shows "address div MyBLOCK_SIZE (source_config n) + PREFETCH_DISTANCE (source_config n) < 2 ^ 64"
proof -
  have "address div 32 < 2 ^ 59" using assms by simp
  then show ?thesis by (simp add: source_config_def)
qed

subsection \<open>The prefetch loop in closed form\<close>

lemma prefetch_visit_eq:
  assumes "sets c \<noteq> []"
  shows "prefetch_visit c i =
    Inr (if i < ExternalMemory_size (memory c)
         then c\<lparr>prefetch_hits := prefetch_hits c + (if resident c i then 1 else 0),
                events := events c @ [prefetch_event c i]\<rparr>
         else c)"
  using assms
  by (simp add: prefetch_visit_def is_block_in_cache_def resident_def prefetch_event_def
      read_block_def ExternalMemory_size_def Let_def)

lemma prefetch_loop_eq:
  "sets c \<noteq> [] \<Longrightarrow>
   prefetch_loop c i hi =
     Inr (c\<lparr>prefetch_hits := prefetch_hits c +
              length (filter (resident c) (filter (\<lambda>k. k < ExternalMemory_size (memory c)) [i ..< Suc hi])),
            events := events c @
              map (prefetch_event c) (filter (\<lambda>k. k < ExternalMemory_size (memory c)) [i ..< Suc hi])\<rparr>)"
proof (induction c i hi rule: prefetch_loop.induct)
  case (1 c i hi)
  show ?case
  proof (cases "i \<le> hi")
    case False
    then show ?thesis by (simp add: prefetch_loop.simps [of c i hi])
  next
    case True
    let ?c' = "if i < ExternalMemory_size (memory c)
         then c\<lparr>prefetch_hits := prefetch_hits c + (if resident c i then 1 else 0),
                events := events c @ [prefetch_event c i]\<rparr>
         else c"
    have v: "prefetch_visit c i = Inr ?c'" using 1(2) by (rule prefetch_visit_eq)
    have s: "sets ?c' = sets c" "memory ?c' = memory c" by simp_all
    have r: "resident ?c' = resident c" "prefetch_event ?c' = prefetch_event c"
      by (auto simp: resident_def prefetch_event_def fun_eq_iff)
    have ne: "sets ?c' \<noteq> []" using 1(2) by simp
    have ih: "prefetch_loop ?c' (i + 1) hi = Inr (?c'\<lparr>prefetch_hits := prefetch_hits ?c' +
              length (filter (resident ?c') (filter (\<lambda>k. k < ExternalMemory_size (memory ?c')) [i + 1 ..< Suc hi])),
            events := events ?c' @
              map (prefetch_event ?c') (filter (\<lambda>k. k < ExternalMemory_size (memory ?c')) [i + 1 ..< Suc hi])\<rparr>)"
      using 1(1) [OF True v ne] .
    have u: "[i ..< Suc hi] = i # [i + 1 ..< Suc hi]" using True by (simp add: upt_conv_Cons)
    show ?thesis
      unfolding prefetch_loop.simps [of c i hi] u
      using True ih unfolding r s v by simp
  qed
qed

lemma CacheSet_access_total:
  "0 < ways s \<Longrightarrow> \<exists>s'. CacheSet_access s b = Inr (b \<in> set (blocks s), s')"
  by (auto simp: CacheSet_access_def)

lemma CacheSet_access_ways:
  "CacheSet_access s b = Inr (r, s') \<Longrightarrow> ways s' = ways s"
  by (auto simp: CacheSet_access_def split: if_splits)

lemma CacheSet_access_front:
  "CacheSet_access s b = Inr (r, s') \<Longrightarrow> \<exists>rest. blocks s' = b # rest"
  by (auto simp: CacheSet_access_def split: if_splits)

lemma CacheSet_access_subset:
  "CacheSet_access s b = Inr (r, s') \<Longrightarrow> set (blocks s') \<subseteq> insert b (set (blocks s))"
  by (auto simp: CacheSet_access_def split: if_splits dest: in_set_butlastD notin_set_remove1)

lemma CacheSet_access_distinct:
  "CacheSet_access s b = Inr (r, s') \<Longrightarrow> distinct (blocks s) \<Longrightarrow> distinct (blocks s')"
  by (auto simp: CacheSet_access_def distinct_butlast split: if_splits dest: in_set_butlastD)

lemma CacheSet_access_length:
  "CacheSet_access s b = Inr (r, s') \<Longrightarrow> 0 < ways s \<Longrightarrow> length (blocks s) \<le> ways s \<Longrightarrow>
   length (blocks s') \<le> ways s"
  by (auto simp: CacheSet_access_def length_remove1 split: if_splits)

lemma prefetch_adjacent_blocks_eq:
  "sets c \<noteq> [] \<Longrightarrow>
   prefetch_adjacent_blocks cfg c b =
     Inr (c\<lparr>prefetch_hits := prefetch_hits c + length (filter (resident c) (successors cfg c b)),
            events := events c @ map (prefetch_event c) (successors cfg c b)\<rparr>)"
  by (simp add: prefetch_adjacent_blocks_def prefetch_loop_eq successors_def)

lemma Cache_access_eq:
  fixes address :: nat
  assumes wf: "wf_cache cfg c"
  defines "b \<equiv> address div MyBLOCK_SIZE cfg"
  defines "k \<equiv> (address div MyBLOCK_SIZE cfg) mod length (sets c)"
  shows "\<exists>s'. CacheSet_access (sets c ! k) b = Inr (b \<in> set (blocks (sets c ! k)), s') \<and>
     Cache_access cfg c address =
       Inr (b \<in> set (blocks (sets c ! k)),
            if b \<in> set (blocks (sets c ! k))
            then c\<lparr>sets := (sets c)[k := s'], hits := hits c + 1,
                   events := events c @ [Dispatch address, Outcome True, HitsInc]\<rparr>
            else c\<lparr>sets := (sets c)[k := s'], misses := misses c + 1,
                   prefetch_hits := prefetch_hits c +
                     length (filter (resident (c\<lparr>sets := (sets c)[k := s']\<rparr>))
                                    (successors cfg c b)),
                   events := events c @ [Dispatch address, Outcome False] @
                     map (prefetch_event (c\<lparr>sets := (sets c)[k := s']\<rparr>)) (successors cfg c b) @
                     [MissesInc]\<rparr>)"
proof -
  have ne: "sets c \<noteq> []" and bs: "0 < MyBLOCK_SIZE cfg" using wf by (simp_all add: wf_cache_def)
  have k: "k < length (sets c)" using ne by (simp add: k_def)
  have kb: "b mod length (sets c) = k" by (simp add: k_def b_def)
  have "0 < ways (sets c ! k)" using wf k by (simp add: wf_cache_def list_all_length)
  then obtain s' where s': "CacheSet_access (sets c ! k) b = Inr (b \<in> set (blocks (sets c ! k)), s')"
    using CacheSet_access_total by blast
  let ?cm = "c\<lparr>sets := (sets c)[k := s'],
                events := events c @ [Dispatch address, Outcome False]\<rparr>"
  have ne': "sets ?cm \<noteq> []" using ne by simp
  have r: "resident ?cm = resident (c\<lparr>sets := (sets c)[k := s']\<rparr>)"
    "prefetch_event ?cm = prefetch_event (c\<lparr>sets := (sets c)[k := s']\<rparr>)"
    "successors cfg ?cm b = successors cfg c b"
    by (auto simp: resident_def prefetch_event_def successors_def fun_eq_iff)
  show ?thesis
  proof (cases "b \<in> set (blocks (sets c ! k))")
    case True
    with s' bs ne show ?thesis
      by (intro exI [of _ s']) (simp add: Cache_access_def Let_def b_def [symmetric] kb)
  next
    case False
    note p = prefetch_adjacent_blocks_eq [OF ne', of cfg b, unfolded r]
    from s' bs ne False show ?thesis
      by (intro exI [of _ s']) (simp add: Cache_access_def Let_def b_def [symmetric] kb p)
  qed
qed

lemma NUM_SETS_pos: "0 < NUM_SETS cfg"
  by (simp add: NUM_SETS_def)

lemma cache_inv_wf: "cache_inv cfg c \<Longrightarrow> wf_cache cfg c"
  using NUM_SETS_pos [of cfg]
  by (auto simp: cache_inv_def wf_cache_def list_all_length set_inv_def)

lemma Cache_new_inv:
  assumes "Cache_new cfg mem = Inr c"
  shows "cache_inv cfg c"
proof -
  have z: "MyBLOCK_SIZE cfg * NUM_WAYS cfg \<noteq> 0"
    using assms by (auto simp: Cache_new_def split: if_splits)
  have c: "c = \<lparr>memory = mem, sets = replicate (NUM_SETS cfg) (CacheSet_new (NUM_WAYS cfg)),
                hits = 0, misses = 0, prefetch_hits = 0, events = []\<rparr>"
    using assms z by (auto simp: Cache_new_def NUM_SETS_def Let_def max_def split: if_splits)
  show ?thesis using z
    by (simp add: c cache_inv_def set_inv_def CacheSet_new_def)
qed

lemma length_successors: "length (successors cfg c b) \<le> PREFETCH_DISTANCE cfg"
proof -
  have "length (successors cfg c b) \<le> length [b + 1 ..< b + PREFETCH_DISTANCE cfg + 1]"
    unfolding successors_def by (rule length_filter_le)
  also have "\<dots> = PREFETCH_DISTANCE cfg" by simp
  finally show ?thesis .
qed

lemma set_inv_access:
  assumes "set_inv cfg n i s" "CacheSet_access s b = Inr (r, s')" "b mod n = i" "0 < NUM_WAYS cfg"
  shows "set_inv cfg n i s'"
proof -
  have w: "ways s = NUM_WAYS cfg" "length (blocks s) \<le> ways s" "distinct (blocks s)" "0 < ways s"
    using assms(1,4) by (simp_all add: set_inv_def)
  have "ways s' = NUM_WAYS cfg" using CacheSet_access_ways [OF assms(2)] w by simp
  moreover have "length (blocks s') \<le> NUM_WAYS cfg"
    using CacheSet_access_length [OF assms(2) w(4) w(2)] w(1) by simp
  moreover have "distinct (blocks s')" using CacheSet_access_distinct [OF assms(2) w(3)] .
  moreover have "\<forall>x \<in> set (blocks s'). x mod n = i"
    using CacheSet_access_subset [OF assms(2)] assms(1,3) by (auto simp: set_inv_def)
  ultimately show ?thesis by (simp add: set_inv_def)
qed

lemma Cache_access_inv:
  assumes inv: "cache_inv cfg c"
  shows "\<exists>r c'. Cache_access cfg c address = Inr (r, c') \<and> cache_inv cfg c' \<and>
           memory c' = memory c \<and> hits c' + misses c' = Suc (hits c + misses c)"
proof -
  let ?b = "address div MyBLOCK_SIZE cfg"
  let ?k = "?b mod length (sets c)"
  obtain s' where s': "CacheSet_access (sets c ! ?k) ?b = Inr (?b \<in> set (blocks (sets c ! ?k)), s')"
    and a: "Cache_access cfg c address =
       Inr (?b \<in> set (blocks (sets c ! ?k)),
            if ?b \<in> set (blocks (sets c ! ?k))
            then c\<lparr>sets := (sets c)[?k := s'], hits := hits c + 1,
                   events := events c @ [Dispatch address, Outcome True, HitsInc]\<rparr>
            else c\<lparr>sets := (sets c)[?k := s'], misses := misses c + 1,
                   prefetch_hits := prefetch_hits c +
                     length (filter (resident (c\<lparr>sets := (sets c)[?k := s']\<rparr>))
                                    (successors cfg c ?b)),
                   events := events c @ [Dispatch address, Outcome False] @
                     map (prefetch_event (c\<lparr>sets := (sets c)[?k := s']\<rparr>)) (successors cfg c ?b) @
                     [MissesInc]\<rparr>)"
    using Cache_access_eq [OF cache_inv_wf [OF inv], of address] by blast
  have n: "0 < length (sets c)" using inv NUM_SETS_pos [of cfg] by (simp add: cache_inv_def)
  then have k: "?k < length (sets c)" by simp
  have nw: "0 < NUM_WAYS cfg" using inv by (simp add: cache_inv_def)
  have "set_inv cfg (length (sets c)) ?k (sets c ! ?k)"
    using inv k unfolding cache_inv_def by blast
  then have si: "set_inv cfg (length (sets c)) ?k s'"
    using s' refl nw by (rule set_inv_access)
  have sets: "\<forall>i < length (sets c). set_inv cfg (length (sets c)) i ((sets c)[?k := s'] ! i)"
    using inv si by (auto simp: cache_inv_def nth_list_update)
  have cnt: "length (filter (resident (c\<lparr>sets := (sets c)[?k := s']\<rparr>)) (successors cfg c ?b))
      \<le> PREFETCH_DISTANCE cfg"
    using length_filter_le length_successors by (rule order_trans)
  have ph: "prefetch_hits c \<le> misses c * PREFETCH_DISTANCE cfg" using inv by (simp add: cache_inv_def)
  have bs: "0 < MyBLOCK_SIZE cfg" and ns: "length (sets c) = NUM_SETS cfg"
    using inv by (simp_all add: cache_inv_def)
  show ?thesis
  proof (cases "?b \<in> set (blocks (sets c ! ?k))")
    case True
    let ?c' = "c\<lparr>sets := (sets c)[?k := s'], hits := hits c + 1,
                   events := events c @ [Dispatch address, Outcome True, HitsInc]\<rparr>"
    have "Cache_access cfg c address = Inr (True, ?c')" using a True by simp
    moreover have "cache_inv cfg ?c'"
      unfolding cache_inv_def using bs nw ns sets ph by simp
    moreover have "memory ?c' = memory c" "hits ?c' + misses ?c' = Suc (hits c + misses c)"
      by simp_all
    ultimately show ?thesis by blast
  next
    case False
    let ?c' = "c\<lparr>sets := (sets c)[?k := s'], misses := misses c + 1,
                   prefetch_hits := prefetch_hits c +
                     length (filter (resident (c\<lparr>sets := (sets c)[?k := s']\<rparr>))
                                    (successors cfg c ?b)),
                   events := events c @ [Dispatch address, Outcome False] @
                     map (prefetch_event (c\<lparr>sets := (sets c)[?k := s']\<rparr>)) (successors cfg c ?b) @
                     [MissesInc]\<rparr>"
    have "Cache_access cfg c address = Inr (False, ?c')" using a False by simp
    moreover have "cache_inv cfg ?c'"
      unfolding cache_inv_def using bs nw ns sets ph cnt by simp
    moreover have "memory ?c' = memory c" "hits ?c' + misses ?c' = Suc (hits c + misses c)"
      by simp_all
    ultimately show ?thesis by blast
  qed
qed

lemma run_inv:
  "cache_inv cfg c \<Longrightarrow>
   \<exists>rs c'. run cfg c addrs = Inr (rs, c') \<and> cache_inv cfg c' \<and> length rs = length addrs \<and>
     memory c' = memory c \<and> hits c' + misses c' = hits c + misses c + length addrs"
proof (induction addrs arbitrary: c)
  case Nil
  then show ?case by simp
next
  case (Cons a addrs)
  obtain r c1 where a: "Cache_access cfg c a = Inr (r, c1)" and i: "cache_inv cfg c1"
    and m: "memory c1 = memory c" "hits c1 + misses c1 = Suc (hits c + misses c)"
    using Cache_access_inv [OF Cons.prems] by blast
  obtain rs c2 where "run cfg c1 addrs = Inr (rs, c2)" "cache_inv cfg c2" "length rs = length addrs"
    "memory c2 = memory c1" "hits c2 + misses c2 = hits c1 + misses c1 + length addrs"
    using Cons.IH [OF i] by blast
  then show ?case using a m by simp
qed

lemma Cache_access_step:
  assumes wf: "wf_cache cfg c"
  shows "\<exists>r c' rest. Cache_access cfg c address = Inr (r, c') \<and> wf_cache cfg c' \<and>
     length (sets c') = length (sets c) \<and>
     blocks (sets c' ! (address div MyBLOCK_SIZE cfg mod length (sets c))) =
       (address div MyBLOCK_SIZE cfg) # rest \<and>
     (\<forall>j < length (sets c). j \<noteq> address div MyBLOCK_SIZE cfg mod length (sets c) \<longrightarrow>
        sets c' ! j = sets c ! j)"
proof -
  let ?b = "address div MyBLOCK_SIZE cfg"
  let ?k = "?b mod length (sets c)"
  obtain s' where s': "CacheSet_access (sets c ! ?k) ?b = Inr (?b \<in> set (blocks (sets c ! ?k)), s')"
    and a: "Cache_access cfg c address =
       Inr (?b \<in> set (blocks (sets c ! ?k)),
            if ?b \<in> set (blocks (sets c ! ?k))
            then c\<lparr>sets := (sets c)[?k := s'], hits := hits c + 1,
                   events := events c @ [Dispatch address, Outcome True, HitsInc]\<rparr>
            else c\<lparr>sets := (sets c)[?k := s'], misses := misses c + 1,
                   prefetch_hits := prefetch_hits c +
                     length (filter (resident (c\<lparr>sets := (sets c)[?k := s']\<rparr>))
                                    (successors cfg c ?b)),
                   events := events c @ [Dispatch address, Outcome False] @
                     map (prefetch_event (c\<lparr>sets := (sets c)[?k := s']\<rparr>)) (successors cfg c ?b) @
                     [MissesInc]\<rparr>)"
    using Cache_access_eq [OF wf, of address] by blast
  obtain r c' where rc: "Cache_access cfg c address = Inr (r, c')" and
    sets: "sets c' = (sets c)[?k := s']"
    using a by (cases "?b \<in> set (blocks (sets c ! ?k))") simp_all
  have ne: "sets c \<noteq> []" using wf by (simp add: wf_cache_def)
  then have k: "?k < length (sets c)" by simp
  obtain rest where rest: "blocks s' = ?b # rest" using CacheSet_access_front [OF s'] by blast
  have "0 < ways (sets c ! ?k)" using wf k by (simp add: wf_cache_def list_all_length)
  then have "0 < ways s'" using CacheSet_access_ways [OF s'] by simp
  then have "wf_cache cfg c'"
    using wf by (auto simp: wf_cache_def sets list_all_length nth_list_update)
  moreover have "blocks (sets c' ! ?k) = ?b # rest" using k rest by (simp add: sets)
  moreover have "\<forall>j < length (sets c). j \<noteq> ?k \<longrightarrow> sets c' ! j = sets c ! j"
    by (simp add: sets)
  moreover have "length (sets c') = length (sets c)" by (simp add: sets)
  ultimately show ?thesis using rc by blast
qed

lemma Cache_access_again:
  assumes wf: "wf_cache cfg c"
  shows "\<exists>r c' c''. Cache_access cfg c address = Inr (r, c') \<and>
           Cache_access cfg c' address = Inr (True, c'')"
proof -
  let ?b = "address div MyBLOCK_SIZE cfg"
  obtain r c' rest where 1: "Cache_access cfg c address = Inr (r, c')" and wf': "wf_cache cfg c'"
    and len: "length (sets c') = length (sets c)"
    and front: "blocks (sets c' ! (?b mod length (sets c))) = ?b # rest"
    using Cache_access_step [OF wf, of address] by blast
  have "?b \<in> set (blocks (sets c' ! (?b mod length (sets c'))))"
    using front len by simp
  then obtain c'' where "Cache_access cfg c' address = Inr (True, c'')"
    using Cache_access_eq [OF wf', of address] by auto
  then show ?thesis using 1 by blast
qed

lemma ExternalMemory_size_new: "ExternalMemory_size (ExternalMemory_new cfg n) = n"
  by (simp add: ExternalMemory_size_def ExternalMemory_new_def)

lemma replicate_two: "replicate 2 x = [x, x]"
  by (simp add: numeral_2_eq_2)

lemmas eval_defs =
  simulate_def Cache_new_def scenario_config_def Cache_access_def CacheSet_access_def
  CacheSet_new_def prefetch_adjacent_blocks_eq successors_def resident_def prefetch_event_def
  CacheSet_contains_def Let_def

subsection \<open>Runs from a fresh cache\<close>

lemma simulate_inv:
  assumes "0 < MyBLOCK_SIZE cfg" "0 < NUM_WAYS cfg"
  shows "\<exists>rs c. simulate cfg mem addrs = Inr (rs, c) \<and> cache_inv cfg c \<and>
           length rs = length addrs \<and> memory c = mem \<and> hits c + misses c = length addrs"
proof -
  obtain c0 where c0: "Cache_new cfg mem = Inr c0" "memory c0 = mem" "hits c0 = 0" "misses c0 = 0"
    using assms by (simp add: Cache_new_def Let_def)
  have "cache_inv cfg c0" using c0(1) by (rule Cache_new_inv)
  then obtain rs c where "run cfg c0 addrs = Inr (rs, c)" "cache_inv cfg c"
    "length rs = length addrs" "memory c = memory c0"
    "hits c + misses c = hits c0 + misses c0 + length addrs"
    using run_inv by blast
  then show ?thesis using c0 by (simp add: simulate_def)
qed

subsection \<open>The exception of the backing store\<close>

lemma is_block_in_cache_resident:
  "sets c \<noteq> [] \<Longrightarrow> is_block_in_cache c i = Inr (resident c i)"
  by (simp add: is_block_in_cache_def resident_def)

lemma prefetch_visit_not_OutOfRange: "prefetch_visit c i \<noteq> Inl OutOfRange"
  by (auto simp: prefetch_visit_def is_block_in_cache_def read_block_def ExternalMemory_size_def
      Let_def split: sum.splits bool.splits)

lemma prefetch_loop_not_OutOfRange: "prefetch_loop c i hi \<noteq> Inl OutOfRange"
proof (induction c i hi rule: prefetch_loop.induct)
  case (1 c i hi)
  show ?case
  proof (cases "i \<le> hi")
    case False
    then show ?thesis by (simp add: prefetch_loop.simps [of c i hi])
  next
    case True
    show ?thesis
    proof (cases "prefetch_visit c i")
      case (Inl e)
      then have "e \<noteq> OutOfRange" using prefetch_visit_not_OutOfRange [of c i] by auto
      then show ?thesis using True Inl by (simp add: prefetch_loop.simps [of c i hi])
    next
      case (Inr c')
      then show ?thesis using True 1 [OF True Inr] by (simp add: prefetch_loop.simps [of c i hi])
    qed
  qed
qed

lemma CacheSet_access_not_OutOfRange: "CacheSet_access s b \<noteq> Inl OutOfRange"
  by (simp add: CacheSet_access_def)

lemma Cache_access_not_OutOfRange: "Cache_access cfg c address \<noteq> Inl OutOfRange"
  using CacheSet_access_not_OutOfRange prefetch_loop_not_OutOfRange
  by (auto simp: Cache_access_def Let_def prefetch_adjacent_blocks_def
      split: sum.splits bool.splits prod.splits)

subsection \<open>The events of a call\<close>

lemma followed_by_last: "Q m \<Longrightarrow> \<not> P m \<Longrightarrow> followed_by P Q (pre @ [m])"
  by (induction pre) simp_all

lemma followed_by_last2: "Q y \<Longrightarrow> \<not> P y \<Longrightarrow> \<not> P x \<Longrightarrow> followed_by P Q (ws @ [y, x])"
  by (induction ws) simp_all

lemma preceded_by_second: "Q y \<Longrightarrow> \<not> P y \<Longrightarrow> \<not> P x \<Longrightarrow> preceded_by P Q (x # y # zs)"
  using followed_by_last2 [of Q y P x "rev zs"] by (simp add: preceded_by_def)

lemma prefetch_event_kind:
  "\<not> is_dispatch (prefetch_event c i)" "\<not> is_miss_count (prefetch_event c i)"
  by (simp_all add: prefetch_event_def)

lemma access_events_eq:
  assumes wf: "wf_cache cfg c"
  shows "\<exists>r c' pf. Cache_access cfg c address = Inr (r, c') \<and>
     events c' = events c @ access_events cfg c address \<and>
     access_events cfg c address =
       Dispatch address # Outcome r # (if r then [HitsInc] else pf @ [MissesInc]) \<and>
     \<not> list_ex is_dispatch pf \<and> \<not> list_ex is_miss_count pf"
proof -
  let ?b = "address div MyBLOCK_SIZE cfg"
  let ?k = "?b mod length (sets c)"
  obtain s' where a: "Cache_access cfg c address =
       Inr (?b \<in> set (blocks (sets c ! ?k)),
            if ?b \<in> set (blocks (sets c ! ?k))
            then c\<lparr>sets := (sets c)[?k := s'], hits := hits c + 1,
                   events := events c @ [Dispatch address, Outcome True, HitsInc]\<rparr>
            else c\<lparr>sets := (sets c)[?k := s'], misses := misses c + 1,
                   prefetch_hits := prefetch_hits c +
                     length (filter (resident (c\<lparr>sets := (sets c)[?k := s']\<rparr>))
                                    (successors cfg c ?b)),
                   events := events c @ [Dispatch address, Outcome False] @
                     map (prefetch_event (c\<lparr>sets := (sets c)[?k := s']\<rparr>)) (successors cfg c ?b) @
                     [MissesInc]\<rparr>)"
    using Cache_access_eq [OF wf, of address] by blast
  let ?pf = "map (prefetch_event (c\<lparr>sets := (sets c)[?k := s']\<rparr>)) (successors cfg c ?b)"
  have k: "\<not> list_ex is_dispatch ?pf" "\<not> list_ex is_miss_count ?pf"
    by (simp_all add: list_ex_iff prefetch_event_kind)
  let ?h = "c\<lparr>sets := (sets c)[?k := s'], hits := hits c + 1,
                   events := events c @ [Dispatch address, Outcome True, HitsInc]\<rparr>"
  let ?m = "c\<lparr>sets := (sets c)[?k := s'], misses := misses c + 1,
                   prefetch_hits := prefetch_hits c +
                     length (filter (resident (c\<lparr>sets := (sets c)[?k := s']\<rparr>))
                                    (successors cfg c ?b)),
                   events := events c @ [Dispatch address, Outcome False] @ ?pf @ [MissesInc]\<rparr>"
  show ?thesis
  proof (cases "?b \<in> set (blocks (sets c ! ?k))")
    case True
    then have 1: "Cache_access cfg c address = Inr (True, ?h)" using a by simp
    then have 2: "access_events cfg c address = [Dispatch address, Outcome True, HitsInc]"
      by (simp add: access_events_def call_events_def)
    show ?thesis
      by (intro exI [of _ True] exI [of _ ?h] exI [of _ "[] :: event list"]) (simp add: 1 2)
  next
    case False
    then have 1: "Cache_access cfg c address = Inr (False, ?m)" using a by simp
    then have 2: "access_events cfg c address =
        Dispatch address # Outcome False # ?pf @ [MissesInc]"
      by (simp add: access_events_def call_events_def)
    show ?thesis
      by (intro exI [of _ False] exI [of _ ?m] exI [of _ ?pf]) (simp add: 1 2 k)
  qed
qed

subsection \<open>The exhausted pattern\<close>

lemma next_address_exhausted:
  "num_elements p \<le> count p \<Longrightarrow> next_address rnd cfg p = (0, p)"
  by (simp add: next_address_def)

lemma next_addresses_exhausted:
  "num_elements p \<le> count p \<Longrightarrow> next_addresses rnd cfg p n = (replicate n 0, p)"
  by (induction n) (simp_all add: next_address_exhausted)

lemma next_addresses_two:
  "next_addresses rnd cfg p 2 =
     (let (a, p') = next_address rnd cfg p; (b, p'') = next_address rnd cfg p'
      in ([a, b], p''))"
  by (simp add: numeral_2_eq_2 split: prod.splits)

subsection \<open>The scenario states\<close>

lemma scenario_memory_size: "ExternalMemory_size scenario_memory = 8"
  by (simp add: scenario_memory_def ExternalMemory_size_new)

lemma scenario_memory_block:
  "i < 8 \<Longrightarrow> mem_blocks scenario_memory ! i = Block_new (scenario_config 2 0) (of_nat (i * 4))"
  by (simp add: scenario_memory_def ExternalMemory_new_def scenario_config_def)

lemma scenario_cache_reached:
  "simulate (scenario_config 2 2) scenario_memory [4] = Inr ([False], scenario_cache)"
  by (simp add: eval_defs scenario_memory_size scenario_cache_def) (simp add: replicate_two)

lemma scenario_cache_wf: "wf_cache (scenario_config 2 2) scenario_cache"
  by (simp add: wf_cache_def scenario_config_def scenario_cache_def)

lemma scenario_cache_access:
  "Cache_access (scenario_config 2 2) scenario_cache 0 =
     Inr (False, scenario_cache
       \<lparr>sets := [\<lparr>blocks = [0], ways = 2\<rparr>, \<lparr>blocks = [1], ways = 2\<rparr>],
        misses := 2, prefetch_hits := 1,
        events := events scenario_cache @
          [Dispatch 0, Outcome False, PrefetchHitsInc 1, ReadBlock 2, MissesInc]\<rparr>)"
  by (simp add: scenario_cache_def scenario_config_def Cache_access_def CacheSet_access_def
      prefetch_adjacent_blocks_eq successors_def resident_def prefetch_event_def
      CacheSet_contains_def Let_def scenario_memory_size)

lemma scenario_pattern:
  "RealisticAccessPattern_new (scenario_config 2 2) () 8 2 =
     \<lparr>gen = (), hot_block_dist = (0, 1), cold_block_dist = (0, 7), element_dist = (0, 3),
      count = 0, num_elements = 2\<rparr>"
  by (simp add: RealisticAccessPattern_new_def scenario_config_def size_t_pred_def)

section \<open>The claims\<close>

text \<open>
  C1. The prefetch of a miss leaves every set as it is. Of the successors
  \<open>b + 1, \<dots>, b + PREFETCH_DISTANCE\<close> that lie in the backing store, each resident one
  adds one to \<open>prefetch_hits\<close> and stays where it is in its set, and each other one is
  read from the backing store and installed nowhere; \<open>hits\<close> and \<open>misses\<close> are not
  touched. This holds in every cache that has a set.
\<close>

theorem prefetch_leaves_sets_unchanged:
  assumes "sets c \<noteq> []"
  shows "\<exists>c'. prefetch_adjacent_blocks cfg c b = Inr c' \<and>
     sets c' = sets c \<and> memory c' = memory c \<and> hits c' = hits c \<and> misses c' = misses c \<and>
     prefetch_hits c' = prefetch_hits c +
       length (filter (\<lambda>i. is_block_in_cache c i = Inr True) (successors cfg c b)) \<and>
     call_events c c' =
       map (\<lambda>i. if is_block_in_cache c i = Inr True then PrefetchHitsInc i else ReadBlock i)
         (successors cfg c b)"
  using assms
  by (simp add: prefetch_adjacent_blocks_eq call_events_def is_block_in_cache_resident
      prefetch_event_def [abs_def])

text \<open>In the cache that holds block 1, the prefetch after a miss on block 0 counts block 1
  and reads block 2.\<close>

theorem prefetch_leaves_sets_unchanged_witness:
  "sets scenario_cache \<noteq> [] \<and>
   successors (scenario_config 2 2) scenario_cache 0 = [1, 2] \<and>
   (\<exists>c'. prefetch_adjacent_blocks (scenario_config 2 2) scenario_cache 0 = Inr c' \<and>
      sets c' = sets scenario_cache \<and>
      prefetch_hits c' = prefetch_hits scenario_cache + 1 \<and>
      call_events scenario_cache c' = [PrefetchHitsInc 1, ReadBlock 2])"
proof -
  have ne: "sets scenario_cache \<noteq> []" by (simp add: scenario_cache_def)
  have s: "successors (scenario_config 2 2) scenario_cache 0 = [1, 2]"
    by (simp add: successors_def scenario_config_def scenario_cache_def scenario_memory_size)
  have r: "is_block_in_cache scenario_cache (Suc 0) = Inr True"
    "is_block_in_cache scenario_cache 2 = Inr False"
    by (simp_all add: is_block_in_cache_def scenario_cache_def CacheSet_contains_def
        eval_nat_numeral)
  show ?thesis
    using prefetch_leaves_sets_unchanged [OF ne, of "scenario_config 2 2" 0] ne
    unfolding s by (auto simp: r)
qed

text \<open>
  C2, as the specification states it: both rates are the quotients, and 0 when the divisor
  is 0. The fresh cache refutes the second half: \<^verbatim>\<open>getHitRate\<close> and
  \<^verbatim>\<open>getEffectiveHitRate\<close> divide without a test, and \<^verbatim>\<open>0.0 / 0\<close> is NaN.
\<close>

theorem hit_rate_fresh_cache_counterexample:
  "Cache_new (scenario_config 2 2) scenario_memory = Inr scenario_fresh \<and>
   getHitRate scenario_fresh = NaN \<and>
   getHitRate scenario_fresh \<noteq>
     spec_rate (hits scenario_fresh) (hits scenario_fresh + misses scenario_fresh) \<and>
   getEffectiveHitRate scenario_fresh = NaN \<and>
   getEffectiveHitRate scenario_fresh \<noteq>
     spec_rate (hits scenario_fresh + prefetch_hits scenario_fresh)
       (hits scenario_fresh + misses scenario_fresh + prefetch_hits scenario_fresh)"
  by (simp add: Cache_new_def scenario_config_def scenario_fresh_def CacheSet_new_def
      replicate_two getHitRate_def getEffectiveHitRate_def double_div_def spec_rate_def)

text \<open>
  C2, amended. With a divisor that is not 0, \<^verbatim>\<open>getHitRate\<close> is
  \<open>hits / (hits + misses)\<close> and \<^verbatim>\<open>getEffectiveHitRate\<close> is
  \<open>(hits + prefetch_hits) / (hits + misses + prefetch_hits)\<close>; with a divisor 0 (in
  particular before any access) each of them is NaN.
\<close>

theorem hit_rate_quotient_or_nan:
  "(0 < hits c + misses c \<longrightarrow>
      getHitRate c = Val (real (hits c) / real (hits c + misses c)) \<and>
      getHitRate c = spec_rate (hits c) (hits c + misses c)) \<and>
   (0 < hits c + misses c + prefetch_hits c \<longrightarrow>
      getEffectiveHitRate c =
        Val (real (hits c + prefetch_hits c) / real (hits c + misses c + prefetch_hits c)) \<and>
      getEffectiveHitRate c =
        spec_rate (hits c + prefetch_hits c) (hits c + misses c + prefetch_hits c)) \<and>
   (hits c + misses c = 0 \<longrightarrow> getHitRate c = NaN) \<and>
   (hits c + misses c + prefetch_hits c = 0 \<longrightarrow> getEffectiveHitRate c = NaN)"
  by (simp add: getHitRate_def getEffectiveHitRate_def double_div_def spec_rate_def)

text \<open>After the accesses 4, 0, 4 the rates are 1/3 and 1/2; in the fresh cache both are NaN.\<close>

theorem hit_rate_quotient_or_nan_witness:
  "\<exists>c. simulate (scenario_config 2 2) scenario_memory [4, 0, 4] = Inr ([False, False, True], c) \<and>
     0 < hits c + misses c \<and> 0 < hits c + misses c + prefetch_hits c \<and>
     getHitRate c = Val (1 / 3) \<and> getEffectiveHitRate c = Val (1 / 2) \<and>
     hits scenario_fresh + misses scenario_fresh + prefetch_hits scenario_fresh = 0 \<and>
     getHitRate scenario_fresh = NaN \<and> getEffectiveHitRate scenario_fresh = NaN"
proof -
  obtain c where c: "simulate (scenario_config 2 2) scenario_memory [4, 0, 4] =
      Inr ([False, False, True], c)" "hits c = 1" "misses c = 2" "prefetch_hits c = 1"
    by (simp add: eval_defs scenario_memory_size)
  show ?thesis
    using hit_rate_quotient_or_nan [of c] hit_rate_quotient_or_nan [of scenario_fresh] c
    by (simp add: scenario_fresh_def)
qed

text \<open>
  C3. With a block size and an associativity that are not 0, every run from the fresh
  cache returns, and in the cache it reaches there are \<open>NUM_SETS\<close> sets, each set holds
  at most \<open>NUM_WAYS\<close> block indices, none of them twice, and a block index \<open>b\<close> that
  is in set \<open>i\<close> has \<open>b mod NUM_SETS = i\<close>, so that it is in that set only.
\<close>

theorem reachable_sets_invariant:
  assumes "0 < MyBLOCK_SIZE cfg" "0 < NUM_WAYS cfg"
  shows "\<exists>rs c. simulate cfg mem addrs = Inr (rs, c) \<and>
     length (sets c) = NUM_SETS cfg \<and>
     (\<forall>i < NUM_SETS cfg.
        length (blocks (sets c ! i)) \<le> NUM_WAYS cfg \<and>
        distinct (blocks (sets c ! i)) \<and>
        (\<forall>b \<in> set (blocks (sets c ! i)). b mod NUM_SETS cfg = i))"
proof -
  obtain rs c where s: "simulate cfg mem addrs = Inr (rs, c)" and inv: "cache_inv cfg c"
    using simulate_inv [OF assms] by blast
  have n: "length (sets c) = NUM_SETS cfg" using inv by (simp add: cache_inv_def)
  have "\<forall>i < length (sets c). set_inv cfg (length (sets c)) i (sets c ! i)"
    using inv unfolding cache_inv_def by blast
  then have "\<forall>i < NUM_SETS cfg. set_inv cfg (NUM_SETS cfg) i (sets c ! i)"
    unfolding n .
  then show ?thesis using s n by (auto simp: set_inv_def)
qed

text \<open>The second scenario of the specification: blocks 0, 2 and 4 compete for set 0.\<close>

theorem reachable_sets_invariant_witness:
  "0 < MyBLOCK_SIZE (scenario_config 2 0) \<and> 0 < NUM_WAYS (scenario_config 2 0) \<and>
   NUM_SETS (scenario_config 2 0) = 2 \<and>
   (\<exists>rs c. simulate (scenario_config 2 0) scenario_memory [0, 8, 16, 0] = Inr (rs, c) \<and>
      map blocks (sets c) = [[0, 4], []] \<and>
      length (sets c) = 2 \<and>
      (\<forall>i < 2.
         length (blocks (sets c ! i)) \<le> 2 \<and> distinct (blocks (sets c ! i)) \<and>
         (\<forall>b \<in> set (blocks (sets c ! i)). b mod 2 = i)))"
proof -
  have h: "0 < MyBLOCK_SIZE (scenario_config 2 0)" "0 < NUM_WAYS (scenario_config 2 0)"
    by (simp_all add: scenario_config_def)
  have n: "NUM_SETS (scenario_config 2 0) = 2" "NUM_WAYS (scenario_config 2 0) = 2"
    by (simp_all add: NUM_SETS_def scenario_config_def)
  have e: "\<exists>c. simulate (scenario_config 2 0) scenario_memory [0, 8, 16, 0] =
      Inr ([False, False, False, False], c) \<and> map blocks (sets c) = [[0, 4], []]"
    by (simp add: eval_defs) (simp add: replicate_two)
  show ?thesis
    using reachable_sets_invariant [OF h, of scenario_memory "[0, 8, 16, 0]"] h e
    unfolding n by auto
qed

text \<open>
  C4, as the specification states it: within a call of \<^verbatim>\<open>access\<close>, every update of
  \<open>prefetch_hits\<close> comes after the miss was counted. The source calls
  \<^verbatim>\<open>prefetch_adjacent_blocks\<close> first and increments \<open>misses\<close> afterwards: in the cache
  that holds block 1, the miss on address 0 counts the prefetch hit for block 1 before
  the miss.
\<close>

theorem prefetch_before_miss_count_counterexample:
  "simulate (scenario_config 2 2) scenario_memory [4] = Inr ([False], scenario_cache) \<and>
   access_events (scenario_config 2 2) scenario_cache 0 =
     [Dispatch 0, Outcome False, PrefetchHitsInc 1, ReadBlock 2, MissesInc] \<and>
   \<not> preceded_by is_prefetch_update is_miss_count
        (access_events (scenario_config 2 2) scenario_cache 0)"
  by (simp add: scenario_cache_reached access_events_def scenario_cache_access call_events_def
      preceded_by_def)

text \<open>
  C4, amended. A call of \<^verbatim>\<open>access\<close> on a well-formed cache returns, and its events are
  appended to the history in this order: the dispatch of the address, which is the only
  dispatch among them; the outcome of the set; then either the increment of \<open>hits\<close>,
  or the events of the prefetch followed by the increment of \<open>misses\<close>. So the counter
  of the outcome is updated strictly after the outcome is determined, and every update
  of \<open>prefetch_hits\<close> comes strictly before the miss is counted, all of it before the
  next access is dispatched.
\<close>

theorem access_event_order:
  assumes "wf_cache cfg c"
  shows "\<exists>r c' evs. Cache_access cfg c address = Inr (r, c') \<and>
     events c' = events c @ access_events cfg c address \<and>
     access_events cfg c address = Dispatch address # evs \<and>
     \<not> list_ex is_dispatch evs \<and>
     preceded_by is_counter_update is_outcome (access_events cfg c address) \<and>
     followed_by is_prefetch_update is_miss_count (access_events cfg c address)"
proof -
  obtain r c' pf where a: "Cache_access cfg c address = Inr (r, c')"
    "events c' = events c @ access_events cfg c address"
    and e: "access_events cfg c address =
       Dispatch address # Outcome r # (if r then [HitsInc] else pf @ [MissesInc])"
    and pf: "\<not> list_ex is_dispatch pf" "\<not> list_ex is_miss_count pf"
    using access_events_eq [OF assms, of address] by blast
  let ?evs = "Outcome r # (if r then [HitsInc] else pf @ [MissesInc])"
  have 1: "\<not> list_ex is_dispatch ?evs" using pf by simp
  have 2: "preceded_by is_counter_update is_outcome (Dispatch address # ?evs)"
    by (rule preceded_by_second) simp_all
  have 3: "followed_by is_prefetch_update is_miss_count (Dispatch address # ?evs)"
  proof (cases r)
    case True
    then show ?thesis by simp
  next
    case False
    have "followed_by is_prefetch_update is_miss_count
        ((Dispatch address # Outcome r # pf) @ [MissesInc])"
      by (rule followed_by_last) simp_all
    then show ?thesis using False by simp
  qed
  show ?thesis using a e 1 2 3 by simp
qed

text \<open>The miss on address 0 in the cache that holds block 1.\<close>

theorem access_event_order_witness:
  "wf_cache (scenario_config 2 2) scenario_cache \<and>
   (\<exists>c'. Cache_access (scenario_config 2 2) scenario_cache 0 = Inr (False, c') \<and>
      events c' = events scenario_cache @ access_events (scenario_config 2 2) scenario_cache 0) \<and>
   access_events (scenario_config 2 2) scenario_cache 0 =
     [Dispatch 0, Outcome False, PrefetchHitsInc 1, ReadBlock 2, MissesInc] \<and>
   preceded_by is_counter_update is_outcome
     (access_events (scenario_config 2 2) scenario_cache 0) \<and>
   followed_by is_prefetch_update is_miss_count
     (access_events (scenario_config 2 2) scenario_cache 0)"
proof -
  have e: "access_events (scenario_config 2 2) scenario_cache 0 =
     [Dispatch 0, Outcome False, PrefetchHitsInc 1, ReadBlock 2, MissesInc]"
    by (simp add: access_events_def scenario_cache_access call_events_def)
  show ?thesis
    using access_event_order [OF scenario_cache_wf, of 0] scenario_cache_wf
    unfolding e by (auto simp: scenario_cache_access)
qed

text \<open>
  C5. With blocks of 4 elements, a cache of 16 elements, 2 ways (hence 2 sets) and no
  prefetch, the addresses 0, 4, 8, 12, 0 on a fresh cache give four misses and then one
  hit: the run ends with \<open>misses = 4\<close> and \<open>hits = 1\<close>, whatever the backing store is.
\<close>

theorem scenario_one_counts:
  "\<exists>c. simulate (scenario_config 2 0) mem [0, 4, 8, 12, 0] =
         Inr ([False, False, False, False, True], c) \<and>
       NUM_SETS (scenario_config 2 0) = 2 \<and> misses c = 4 \<and> hits c = 1 \<and>
       map blocks (sets c) = [[0, 2], [3, 1]]"
  by (simp add: eval_defs NUM_SETS_def) (simp add: replicate_two)

text \<open>
  C6. In every cache that a run from the fresh cache reaches, \<^verbatim>\<open>access(a)\<close> returns, and
  \<^verbatim>\<open>access(a)\<close> called again at once returns a hit, whether the first call was a
  hit or a miss.
\<close>

theorem repeated_access_hits:
  assumes "0 < MyBLOCK_SIZE cfg" "0 < NUM_WAYS cfg"
  shows "\<exists>rs c r c' c''. simulate cfg mem addrs = Inr (rs, c) \<and>
     Cache_access cfg c a = Inr (r, c') \<and> Cache_access cfg c' a = Inr (True, c'')"
proof -
  obtain rs c where s: "simulate cfg mem addrs = Inr (rs, c)" and inv: "cache_inv cfg c"
    using simulate_inv [OF assms] by blast
  have "wf_cache cfg c" using inv by (rule cache_inv_wf)
  then show ?thesis using Cache_access_again s by blast
qed

text \<open>Set 0 is full of blocks 0 and 2; address 16 (block 4) misses, then hits.\<close>

theorem repeated_access_hits_witness:
  "0 < MyBLOCK_SIZE (scenario_config 2 2) \<and> 0 < NUM_WAYS (scenario_config 2 2) \<and>
   (\<exists>rs c c' c''. simulate (scenario_config 2 2) scenario_memory [0, 8] = Inr (rs, c) \<and>
      Cache_access (scenario_config 2 2) c 16 = Inr (False, c') \<and>
      Cache_access (scenario_config 2 2) c' 16 = Inr (True, c''))"
proof -
  have h: "0 < MyBLOCK_SIZE (scenario_config 2 2)" "0 < NUM_WAYS (scenario_config 2 2)"
    by (simp_all add: scenario_config_def)
  obtain rs c r c' c'' where
    s: "simulate (scenario_config 2 2) scenario_memory [0, 8] = Inr (rs, c)" and
    a: "Cache_access (scenario_config 2 2) c 16 = Inr (r, c')"
       "Cache_access (scenario_config 2 2) c' 16 = Inr (True, c'')"
    using repeated_access_hits [OF h, of scenario_memory "[0, 8]" 16] by blast
  have "\<exists>c. simulate (scenario_config 2 2) scenario_memory [0, 8, 16] = Inr ([False, False, False], c)"
    by (simp add: eval_defs scenario_memory_size)
  then have "r = False" using s a(1) by (auto simp: simulate_def split: sum.splits)
  then show ?thesis using h s a by blast
qed

text \<open>
  C7. In every cache that a run from the fresh cache reaches, \<open>prefetch_hits\<close> is at most
  \<open>misses * PREFETCH_DISTANCE\<close>; with a prefetch distance of 0 it is 0.
\<close>

theorem prefetch_hits_bound:
  assumes "0 < MyBLOCK_SIZE cfg" "0 < NUM_WAYS cfg"
  shows "\<exists>rs c. simulate cfg mem addrs = Inr (rs, c) \<and>
     prefetch_hits c \<le> misses c * PREFETCH_DISTANCE cfg \<and>
     (PREFETCH_DISTANCE cfg = 0 \<longrightarrow> prefetch_hits c = 0)"
proof -
  obtain rs c where s: "simulate cfg mem addrs = Inr (rs, c)" and inv: "cache_inv cfg c"
    using simulate_inv [OF assms] by blast
  have "prefetch_hits c \<le> misses c * PREFETCH_DISTANCE cfg"
    using inv by (simp add: cache_inv_def)
  then show ?thesis using s by auto
qed

text \<open>The accesses 4, 0 with a prefetch distance of 2 and of 0.\<close>

theorem prefetch_hits_bound_witness:
  "0 < MyBLOCK_SIZE (scenario_config 2 2) \<and> 0 < NUM_WAYS (scenario_config 2 2) \<and>
   (\<exists>rs c. simulate (scenario_config 2 2) scenario_memory [4, 0] = Inr (rs, c) \<and>
      prefetch_hits c = 1 \<and> misses c = 2 \<and>
      prefetch_hits c \<le> misses c * PREFETCH_DISTANCE (scenario_config 2 2)) \<and>
   0 < MyBLOCK_SIZE (scenario_config 2 0) \<and> 0 < NUM_WAYS (scenario_config 2 0) \<and>
   PREFETCH_DISTANCE (scenario_config 2 0) = 0 \<and>
   (\<exists>rs c. simulate (scenario_config 2 0) scenario_memory [4, 0] = Inr (rs, c) \<and>
      prefetch_hits c = 0)"
proof -
  have h: "0 < MyBLOCK_SIZE (scenario_config 2 2)" "0 < NUM_WAYS (scenario_config 2 2)"
    and h0: "0 < MyBLOCK_SIZE (scenario_config 2 0)" "0 < NUM_WAYS (scenario_config 2 0)"
    and z: "PREFETCH_DISTANCE (scenario_config 2 0) = 0"
    by (simp_all add: scenario_config_def)
  have e: "\<exists>c. simulate (scenario_config 2 2) scenario_memory [4, 0] = Inr ([False, False], c) \<and>
      prefetch_hits c = 1 \<and> misses c = 2"
    by (simp add: eval_defs scenario_memory_size)
  show ?thesis
    using prefetch_hits_bound [OF h, of scenario_memory "[4, 0]"]
      prefetch_hits_bound [OF h0, of scenario_memory "[4, 0]"] h h0 z e
    by auto
qed

text \<open>
  C8. \<^verbatim>\<open>read_block(b)\<close> raises \<open>OutOfRange\<close> exactly when \<open>b\<close> is at least the size of
  the memory, and returns block \<open>b\<close> otherwise. The prefetch never ends with
  \<open>OutOfRange\<close>, nor does \<^verbatim>\<open>access\<close>; in a cache that has a set the prefetch returns, and
  every block it read was in range, so that its read returned the block.
\<close>

theorem read_block_range:
  "(read_block m b = Inl OutOfRange \<longleftrightarrow> ExternalMemory_size m \<le> b) \<and>
   (b < ExternalMemory_size m \<longrightarrow> read_block m b = Inr (mem_blocks m ! b)) \<and>
   prefetch_adjacent_blocks cfg c b \<noteq> Inl OutOfRange \<and>
   Cache_access cfg c address \<noteq> Inl OutOfRange \<and>
   (sets c \<noteq> [] \<longrightarrow>
      (\<exists>c'. prefetch_adjacent_blocks cfg c b = Inr c' \<and>
         (\<forall>i. ReadBlock i \<in> set (call_events c c') \<longrightarrow>
            i < ExternalMemory_size (memory c) \<and>
            read_block (memory c) i = Inr (mem_blocks (memory c) ! i))))"
proof -
  have "sets c \<noteq> [] \<longrightarrow>
      (\<exists>c'. prefetch_adjacent_blocks cfg c b = Inr c' \<and>
         (\<forall>i. ReadBlock i \<in> set (call_events c c') \<longrightarrow>
            i < ExternalMemory_size (memory c) \<and>
            read_block (memory c) i = Inr (mem_blocks (memory c) ! i)))"
    by (auto simp: prefetch_adjacent_blocks_eq call_events_def successors_def prefetch_event_def
        read_block_def ExternalMemory_size_def split: if_splits)
  moreover have "prefetch_adjacent_blocks cfg c b \<noteq> Inl OutOfRange"
    by (simp add: prefetch_adjacent_blocks_def prefetch_loop_not_OutOfRange)
  moreover have "(read_block m b = Inl OutOfRange \<longleftrightarrow> ExternalMemory_size m \<le> b) \<and>
    (b < ExternalMemory_size m \<longrightarrow> read_block m b = Inr (mem_blocks m ! b))"
    by (simp add: read_block_def ExternalMemory_size_def)
  ultimately show ?thesis using Cache_access_not_OutOfRange by blast
qed

text \<open>A memory of 8 blocks: block 8 is out of range, and the prefetch after block 6 reads
  block 7 only.\<close>

theorem read_block_range_witness:
  "read_block scenario_memory 8 = Inl OutOfRange \<and>
   read_block scenario_memory 7 = Inr [28, 29, 30, 31] \<and>
   sets scenario_cache \<noteq> [] \<and>
   successors (scenario_config 2 2) scenario_cache 6 = [7] \<and>
   (\<exists>c'. prefetch_adjacent_blocks (scenario_config 2 2) scenario_cache 6 = Inr c' \<and>
      call_events scenario_cache c' = [ReadBlock 7])"
proof -
  have ne: "sets scenario_cache \<noteq> []" by (simp add: scenario_cache_def)
  have m: "memory scenario_cache = scenario_memory" by (simp add: scenario_cache_def)
  have b7: "mem_blocks scenario_memory ! 7 = [28, 29, 30, 31]"
    by (simp add: scenario_memory_block Block_new_def scenario_config_def upt_conv_Cons)
  have s: "successors (scenario_config 2 2) scenario_cache 6 = [7]"
    by (simp add: successors_def scenario_config_def m scenario_memory_size)
  have p: "prefetch_adjacent_blocks (scenario_config 2 2) scenario_cache 6 =
      Inr (scenario_cache\<lparr>events := events scenario_cache @ [ReadBlock 7]\<rparr>)"
    by (simp add: prefetch_adjacent_blocks_eq ne s prefetch_event_def resident_def
        CacheSet_contains_def) (simp add: scenario_cache_def numeral_2_eq_2 [symmetric])
  show ?thesis
    using read_block_range [of scenario_memory 8 "scenario_config 2 2" scenario_cache 0]
      read_block_range [of scenario_memory 7 "scenario_config 2 2" scenario_cache 0]
      ne s p
    by (simp add: scenario_memory_size b7 call_events_def)
qed

text \<open>
  C9. \<^verbatim>\<open>access(addr)\<close> on a well-formed cache returns, keeps the number of sets, and
  leaves every set other than the one with index
  \<open>(addr div MyBLOCK_SIZE) mod\<close> (number of sets) as it was, in content and in order.
\<close>

theorem access_frame:
  assumes "wf_cache cfg c"
  shows "\<exists>r c'. Cache_access cfg c addr = Inr (r, c') \<and>
     length (sets c') = length (sets c) \<and>
     (\<forall>j < length (sets c).
        j \<noteq> (addr div MyBLOCK_SIZE cfg) mod length (sets c) \<longrightarrow> sets c' ! j = sets c ! j)"
  using Cache_access_step [OF assms, of addr] by blast

text \<open>A miss on block 0 whose prefetch finds block 1 in set 1: set 1 is as before.\<close>

theorem access_frame_witness:
  "wf_cache (scenario_config 2 2) scenario_cache \<and>
   (0 div MyBLOCK_SIZE (scenario_config 2 2)) mod length (sets scenario_cache) = 0 \<and>
   (\<exists>c'. Cache_access (scenario_config 2 2) scenario_cache 0 = Inr (False, c') \<and>
      prefetch_hits c' = prefetch_hits scenario_cache + 1 \<and>
      length (sets c') = 2 \<and> sets c' ! 1 = sets scenario_cache ! 1 \<and>
      sets c' ! 0 \<noteq> sets scenario_cache ! 0)"
proof -
  obtain r c' where a: "Cache_access (scenario_config 2 2) scenario_cache 0 = Inr (r, c')"
    and f: "length (sets c') = length (sets scenario_cache)"
      "\<forall>j < length (sets scenario_cache).
        j \<noteq> (0 div MyBLOCK_SIZE (scenario_config 2 2)) mod length (sets scenario_cache) \<longrightarrow>
        sets c' ! j = sets scenario_cache ! j"
    using access_frame [OF scenario_cache_wf, of 0] by blast
  have l: "length (sets scenario_cache) = 2" by (simp add: scenario_cache_def)
  have "sets c' ! 1 = sets scenario_cache ! 1" using f(2) unfolding l by simp
  moreover have "r = False" "prefetch_hits c' = prefetch_hits scenario_cache + 1"
    "sets c' ! 0 \<noteq> sets scenario_cache ! 0"
    using a unfolding scenario_cache_access by (auto simp: scenario_cache_def)
  ultimately show ?thesis using a f(1) l scenario_cache_wf by auto
qed

text \<open>
  C10. Once \<open>count\<close> has reached \<open>num_elements\<close>, \<^verbatim>\<open>next_address\<close> returns the address 0
  and leaves the pattern as it is, \<open>count\<close> included, however often it is called. The
  address 0 is in block 0, and the cache treats it as any access to address 0.
\<close>

theorem exhausted_pattern_returns_zero:
  assumes "num_elements p \<le> count p"
  shows "next_address rnd cfg p = (0, p) \<and>
     count (snd (next_address rnd cfg p)) = count p \<and>
     next_addresses rnd cfg p n = (replicate n 0, p) \<and>
     fst (next_address rnd cfg p) div MyBLOCK_SIZE cfg = 0 \<and>
     Cache_access cfg c (fst (next_address rnd cfg p)) = Cache_access cfg c 0"
  using assms by (simp add: next_address_exhausted next_addresses_exhausted)

text \<open>A pattern of two elements: two addresses are drawn, then the address is 0.\<close>

theorem exhausted_pattern_returns_zero_witness:
  "\<exists>as p. next_addresses constant_source (scenario_config 2 2)
       (RealisticAccessPattern_new (scenario_config 2 2) () 8 2) 2 = (as, p) \<and>
     as = [7, 7] \<and> count p = 2 \<and> num_elements p \<le> count p \<and>
     next_address constant_source (scenario_config 2 2) p = (0, p) \<and>
     next_addresses constant_source (scenario_config 2 2) p 3 = ([0, 0, 0], p)"
proof -
  have k: "MyBLOCK_SIZE (scenario_config 2 2) = 4" "HOT_ACCESS_PROB (scenario_config 2 2) = 1 / 2"
    by (simp_all add: scenario_config_def)
  obtain as p where e: "next_addresses constant_source (scenario_config 2 2)
       (RealisticAccessPattern_new (scenario_config 2 2) () 8 2) 2 = (as, p)"
    "as = [7, 7]" "count p = 2" "num_elements p = 2"
    by (simp add: next_addresses_two scenario_pattern next_address_def constant_source_def
        k Let_def)
  have h: "num_elements p \<le> count p" using e by simp
  show ?thesis
    using exhausted_pattern_returns_zero [OF h, of constant_source "scenario_config 2 2" 3] e h
    by (simp add: numeral_3_eq_3)
qed

end
